theory Spec2Isabelle
  imports Complex_Main
begin

section \<open>Shared DOM vocabulary\<close>

text \<open>
  Both scripts (\<^verbatim>\<open>js/main.js\<close> and \<^verbatim>\<open>js/gallery.js\<close>) read elements with
  \<^verbatim>\<open>querySelector\<close>/\<^verbatim>\<open>getElementById\<close>, which give \<^verbatim>\<open>null\<close> for a missing element.
  Reading a property of \<^verbatim>\<open>null\<close> or \<^verbatim>\<open>undefined\<close> raises a \<^verbatim>\<open>TypeError\<close>; that is the
  only exception the two scripts can raise, and it is a value of the model. A raised
  error is \<open>Inl TypeError\<close>; the page state at the moment of the throw is not kept.
\<close>

datatype error = TypeError

text \<open>
  A \<^verbatim>\<open>classList\<close> is an ordered set of tokens: \<^verbatim>\<open>add\<close> appends a token that is not
  there yet, \<^verbatim>\<open>remove\<close> deletes it, \<^verbatim>\<open>contains\<close> tests it.
\<close>

type_synonym classList = "string list"

definition classList_add :: "string \<Rightarrow> classList \<Rightarrow> classList" where
  "classList_add c cl = (if c \<in> set cl then cl else cl @ [c])"

definition classList_remove :: "string \<Rightarrow> classList \<Rightarrow> classList" where
  "classList_remove c cl = filter (\<lambda>x. x \<noteq> c) cl"

definition classList_contains :: "string \<Rightarrow> classList \<Rightarrow> bool" where
  "classList_contains c cl = (c \<in> set cl)"

section \<open>js/main.js: slide controller and page chrome\<close>

text \<open>\<^verbatim>\<open>const AUTO_SLIDE_INTERVAL_MS = 7000;\<close>\<close>

definition AUTO_SLIDE_INTERVAL_MS :: nat where
  "AUTO_SLIDE_INTERVAL_MS = 7000"

text \<open>
  A slide panel, as far as the script touches it: \<^verbatim>\<open>slide.style.transform\<close>, which
  \<^verbatim>\<open>showSlide\<close> sets to \<^verbatim>\<open>translateX(k%)\<close>, and whether
  \<^verbatim>\<open>slide.querySelector("img")\<close> finds an image.
\<close>

datatype transform = NoTransform | TranslateX int

record slide =
  style_transform :: transform
  has_img :: bool

text \<open>
  The functions of the script that are registered as listeners or called by them.
  A listener entry is the element, the event type and the function.
\<close>

datatype target = NextBtn | PrevBtn | SlideEl nat

datatype event_type = Click | MouseEnter | MouseLeave

datatype operation =
    ShowSlide | GoNext | GoPrev | StartAutoSlide | StopAutoSlide
  | AttachListeners | Load | NextClick | PrevClick

text \<open>
  The page as \<^verbatim>\<open>main.js\<close> sees it. The first six fields are the document the script
  finds (\<^verbatim>\<open>slides\<close>, \<^verbatim>\<open>nextBtn\<close>, \<^verbatim>\<open>prevBtn\<close>, \<^verbatim>\<open>window.gsap\<close>, the body's class list,
  the class list of the \<^verbatim>\<open>.navbar\<close> element or \<open>None\<close> when there is none); \<open>index\<close> and
  \<open>autoSlideId\<close> are the script's two variables (\<open>None\<close> is \<^verbatim>\<open>null\<close>); \<open>intervals\<close> is
  the window's table of active interval timers (handle and delay; the callback is always
  \<^verbatim>\<open>goNext\<close>) and \<open>next_timer\<close> the handle the next \<^verbatim>\<open>setInterval\<close> returns;
  \<open>listeners\<close> are the listeners the script has attached; \<open>gsap_calls\<close> logs the slides
  whose image \<^verbatim>\<open>gsap.fromTo\<close> has animated.
\<close>

record page =
  slides :: "slide list"
  nextBtn :: bool
  prevBtn :: bool
  gsap :: bool
  body_classList :: classList
  navbar :: "classList option"
  index :: int
  autoSlideId :: "nat option"
  intervals :: "(nat \<times> nat) list"
  next_timer :: nat
  listeners :: "(target \<times> event_type \<times> operation) list"
  gsap_calls :: "nat list"

text \<open>
  The state in which the script starts: \<^verbatim>\<open>let index = 0; let autoSlideId = null;\<close>,
  no timer, no listener, no animation played.
\<close>

definition init :: "slide list \<Rightarrow> bool \<Rightarrow> bool \<Rightarrow> bool \<Rightarrow> classList \<Rightarrow> classList option \<Rightarrow> page" where
  "init ss nb pb g body nav =
     \<lparr>slides = ss, nextBtn = nb, prevBtn = pb, gsap = g, body_classList = body,
      navbar = nav, index = 0, autoSlideId = None, intervals = [], next_timer = 1,
      listeners = [], gsap_calls = []\<rparr>"

text \<open>
  JavaScript's \<^verbatim>\<open>%\<close> on integers: the remainder of the truncating division, with the
  sign of the dividend; \<^verbatim>\<open>a % 0\<close> is \<^verbatim>\<open>NaN\<close>, here \<open>None\<close>.
\<close>

definition js_rem :: "int \<Rightarrow> int \<Rightarrow> int option" where
  "js_rem a b = (if b = 0 then None else Some (sgn a * (\<bar>a\<bar> mod \<bar>b\<bar>)))"

text \<open>
  \<^verbatim>\<open>showSlide(i)\<close>: every slide \<open>idx\<close> gets \<^verbatim>\<open>translateX(100 * (idx - i) %)\<close>; then
  \<^verbatim>\<open>slides[i].querySelector("img")\<close> raises when \<^verbatim>\<open>slides[i]\<close> is undefined (\<open>i\<close> out of
  range); the image is animated when there is one and \<^verbatim>\<open>window.gsap\<close> is set.
\<close>

definition position_slides :: "int \<Rightarrow> slide list \<Rightarrow> slide list" where
  "position_slides i ss =
     map (\<lambda>(idx, s). s\<lparr>style_transform := TranslateX (100 * (int idx - i))\<rparr>) (enumerate 0 ss)"

definition showSlide :: "int \<Rightarrow> page \<Rightarrow> error + page" where
  "showSlide i p =
     (let p1 = p\<lparr>slides := position_slides i (slides p)\<rparr> in
      if 0 \<le> i \<and> i < int (length (slides p1)) then
        (if has_img (slides p1 ! nat i) \<and> gsap p1
         then Inr (p1\<lparr>gsap_calls := gsap_calls p1 @ [nat i]\<rparr>)
         else Inr p1)
      else Inl TypeError)"

text \<open>
  \<^verbatim>\<open>goNext\<close> and \<^verbatim>\<open>goPrev\<close>. With no slide the remainder is \<^verbatim>\<open>NaN\<close>, \<^verbatim>\<open>slides[NaN]\<close> is
  undefined and \<^verbatim>\<open>showSlide\<close> raises.
\<close>

definition goNext :: "page \<Rightarrow> error + page" where
  "goNext p =
     (case js_rem (index p + 1) (int (length (slides p))) of
        None \<Rightarrow> Inl TypeError
      | Some i \<Rightarrow> showSlide i (p\<lparr>index := i\<rparr>))"

definition goPrev :: "page \<Rightarrow> error + page" where
  "goPrev p =
     (case js_rem (index p - 1 + int (length (slides p))) (int (length (slides p))) of
        None \<Rightarrow> Inl TypeError
      | Some i \<Rightarrow> showSlide i (p\<lparr>index := i\<rparr>))"

text \<open>\<^verbatim>\<open>clearInterval(id)\<close> and \<^verbatim>\<open>setInterval(goNext, ms)\<close> on the window's timer table.\<close>

definition clearInterval :: "nat \<Rightarrow> page \<Rightarrow> page" where
  "clearInterval t p = p\<lparr>intervals := filter (\<lambda>e. fst e \<noteq> t) (intervals p)\<rparr>"

definition setInterval :: "nat \<Rightarrow> page \<Rightarrow> nat \<times> page" where
  "setInterval ms p =
     (next_timer p,
      p\<lparr>intervals := intervals p @ [(next_timer p, ms)], next_timer := next_timer p + 1\<rparr>)"

definition stopAutoSlide :: "page \<Rightarrow> page" where
  "stopAutoSlide p =
     (case autoSlideId p of
        None \<Rightarrow> p
      | Some t \<Rightarrow> (clearInterval t p)\<lparr>autoSlideId := None\<rparr>)"

definition startAutoSlide :: "page \<Rightarrow> page" where
  "startAutoSlide p =
     (case setInterval AUTO_SLIDE_INTERVAL_MS (stopAutoSlide p) of
        (t, p1) \<Rightarrow> p1\<lparr>autoSlideId := Some t\<rparr>)"

text \<open>
  \<^verbatim>\<open>attachListeners\<close>: the click listeners when the button exists, then
  \<^verbatim>\<open>mouseenter\<close>/\<^verbatim>\<open>mouseleave\<close> on every slide.
\<close>

definition attachListeners :: "page \<Rightarrow> page" where
  "attachListeners p =
     p\<lparr>listeners := listeners p
        @ (if nextBtn p then [(NextBtn, Click, NextClick)] else [])
        @ (if prevBtn p then [(PrevBtn, Click, PrevClick)] else [])
        @ concat (map (\<lambda>k. [(SlideEl k, MouseEnter, StopAutoSlide),
                             (SlideEl k, MouseLeave, StartAutoSlide)])
                      [0 ..< length (slides p)])\<rparr>"

text \<open>The two click listeners: \<^verbatim>\<open>() => { goNext(); startAutoSlide(); }\<close> and its twin.\<close>

definition next_click :: "page \<Rightarrow> error + page" where
  "next_click p = (case goNext p of Inl e \<Rightarrow> Inl e | Inr p1 \<Rightarrow> Inr (startAutoSlide p1))"

definition prev_click :: "page \<Rightarrow> error + page" where
  "prev_click p = (case goPrev p of Inl e \<Rightarrow> Inl e | Inr p1 \<Rightarrow> Inr (startAutoSlide p1))"

text \<open>The \<^verbatim>\<open>load\<close> listener.\<close>

definition load_handler :: "page \<Rightarrow> error + page" where
  "load_handler p =
     (let p1 = p\<lparr>body_classList := classList_add ''loaded'' (body_classList p)\<rparr> in
      if length (slides p1) \<noteq> 0 then
        (case showSlide (index p1) p1 of
           Inl e \<Rightarrow> Inl e
         | Inr p2 \<Rightarrow> Inr (startAutoSlide (attachListeners p2)))
      else Inr p1)"

text \<open>
  The \<^verbatim>\<open>scroll\<close> listener; \<open>y\<close> is \<^verbatim>\<open>window.scrollY\<close> at the event (a finite number,
  possibly fractional). \<^verbatim>\<open>nav\<close> is looked up at every event and used unguarded in both
  branches.
\<close>

definition scroll_handler :: "real \<Rightarrow> page \<Rightarrow> error + page" where
  "scroll_handler y p =
     (let nav = navbar p in
      if y > 60 then
        (case nav of
           None \<Rightarrow> Inl TypeError
         | Some cl \<Rightarrow> Inr (p\<lparr>navbar := Some (classList_add ''scrolled'' cl)\<rparr>))
      else
        (case nav of
           None \<Rightarrow> Inl TypeError
         | Some cl \<Rightarrow> Inr (p\<lparr>navbar := Some (classList_remove ''scrolled'' cl)\<rparr>)))"

definition navbar_scrolled :: "page \<Rightarrow> bool" where
  "navbar_scrolled p = (case navbar p of None \<Rightarrow> False | Some cl \<Rightarrow> classList_contains ''scrolled'' cl)"

text \<open>Running one function of the slide controller, and a sequence of them.\<close>

fun exec :: "operation \<Rightarrow> page \<Rightarrow> error + page" where
  "exec ShowSlide p = showSlide (index p) p"
| "exec GoNext p = goNext p"
| "exec GoPrev p = goPrev p"
| "exec StartAutoSlide p = Inr (startAutoSlide p)"
| "exec StopAutoSlide p = Inr (stopAutoSlide p)"
| "exec AttachListeners p = Inr (attachListeners p)"
| "exec Load p = load_handler p"
| "exec NextClick p = next_click p"
| "exec PrevClick p = prev_click p"

fun run :: "operation list \<Rightarrow> page \<Rightarrow> error + page" where
  "run [] p = Inr p"
| "run (c # cs) p = (case exec c p of Inl e \<Rightarrow> Inl e | Inr p1 \<Rightarrow> run cs p1)"

text \<open>\<open>n\<close> calls of \<^verbatim>\<open>goNext\<close> in succession.\<close>

fun goNext_times :: "nat \<Rightarrow> page \<Rightarrow> error + page" where
  "goNext_times 0 p = Inr p"
| "goNext_times (Suc n) p = (case goNext p of Inl e \<Rightarrow> Inl e | Inr p1 \<Rightarrow> goNext_times n p1)"

text \<open>The slide cursor is a valid index into the sequence.\<close>

definition index_valid :: "page \<Rightarrow> bool" where
  "index_valid p = (0 \<le> index p \<and> index p < int (length (slides p)))"

text \<open>
  The window's timers are exactly the one \<^verbatim>\<open>autoSlideId\<close> names, or none when it is
  \<^verbatim>\<open>null\<close>: the script creates timers nowhere but in \<^verbatim>\<open>startAutoSlide\<close>.
\<close>

definition timer_consistent :: "page \<Rightarrow> bool" where
  "timer_consistent p =
     (intervals p = (case autoSlideId p of None \<Rightarrow> [] | Some t \<Rightarrow> [(t, AUTO_SLIDE_INTERVAL_MS)]))"

text \<open>A sequence of \<^verbatim>\<open>startAutoSlide()\<close> and \<^verbatim>\<open>stopAutoSlide()\<close> calls.\<close>

datatype auto_call = CallStart | CallStop

fun auto_calls :: "auto_call list \<Rightarrow> page \<Rightarrow> page" where
  "auto_calls [] p = p"
| "auto_calls (CallStart # cs) p = auto_calls cs (startAutoSlide p)"
| "auto_calls (CallStop # cs) p = auto_calls cs (stopAutoSlide p)"

section \<open>js/gallery.js: lightbox\<close>

text \<open>
  The gallery page as \<^verbatim>\<open>gallery.js\<close> sees it: the sources of the \<^verbatim>\<open>.item img\<close>
  images, the class list of the \<^verbatim>\<open>.viewer\<close> element, the \<^verbatim>\<open>src\<close> of \<^verbatim>\<open>#viewer-img\<close>,
  and whether the \<^verbatim>\<open>.close\<close> control exists. \<open>None\<close> is a missing element. The item
  images are elements of their own: the script never writes to them, and \<^verbatim>\<open>#viewer-img\<close>
  is not one of them.
\<close>

record gallery =
  items :: "string list"
  viewer :: "classList option"
  viewerImg :: "string option"
  closeBtn :: bool

text \<open>
  The click listener of one item image, whose \<^verbatim>\<open>src\<close> is \<open>src\<close>:
  \<^verbatim>\<open>viewerImg.src = img.src; viewer.classList.add("show");\<close>
\<close>

definition item_click :: "string \<Rightarrow> gallery \<Rightarrow> error + gallery" where
  "item_click src g =
     (case viewerImg g of
        None \<Rightarrow> Inl TypeError
      | Some _ \<Rightarrow>
          (let g1 = g\<lparr>viewerImg := Some src\<rparr> in
           case viewer g1 of
             None \<Rightarrow> Inl TypeError
           | Some cl \<Rightarrow> Inr (g1\<lparr>viewer := Some (classList_add ''show'' cl)\<rparr>)))"

text \<open>A click on the \<open>k\<close>-th item image; where there is no such image nothing runs.\<close>

definition click_item :: "nat \<Rightarrow> gallery \<Rightarrow> error + gallery" where
  "click_item k g = (if k < length (items g) then item_click (items g ! k) g else Inr g)"

text \<open>The click listener of the close control: \<^verbatim>\<open>viewer.classList.remove("show")\<close>.\<close>

definition close_click :: "gallery \<Rightarrow> error + gallery" where
  "close_click g =
     (case viewer g of
        None \<Rightarrow> Inl TypeError
      | Some cl \<Rightarrow> Inr (g\<lparr>viewer := Some (classList_remove ''show'' cl)\<rparr>))"

definition visible :: "gallery \<Rightarrow> bool" where
  "visible g = (case viewer g of None \<Rightarrow> False | Some cl \<Rightarrow> classList_contains ''show'' cl)"

section \<open>Example pages\<close>

text \<open>
  Concrete pages on which the theorems below are instantiated: a home page with three
  slides, both buttons, the animation library and a navbar; a page with no slide, no
  button and no navbar; a gallery page with two items and a hidden viewer.
\<close>

definition example_slide :: slide where
  "example_slide = \<lparr>style_transform = NoTransform, has_img = True\<rparr>"

definition example_page :: page where
  "example_page = init [example_slide, example_slide, example_slide] True True True [] (Some [])"

definition example_blank_page :: page where
  "example_blank_page = init [] False False False [] None"

definition example_gallery :: gallery where
  "example_gallery =
     \<lparr>items = [''a.jpg'', ''b.jpg''], viewer = Some [''viewer''], viewerImg = Some [],
      closeBtn = True\<rparr>"

section \<open>Properties\<close>

lemmas cl_defs = classList_add_def classList_remove_def classList_contains_def

subsection \<open>Slide cursor: auxiliary facts\<close>

lemma length_position_slides [simp]: "length (position_slides i ss) = length ss"
  by (simp add: position_slides_def)

lemma showSlide_ok:
  assumes "0 \<le> i" "i < int (length (slides p))"
  shows "\<exists>p'. showSlide i p = Inr p' \<and> index p' = index p
       \<and> length (slides p') = length (slides p)
       \<and> intervals p' = intervals p \<and> autoSlideId p' = autoSlideId p"
  using assms by (simp add: showSlide_def Let_def)

lemma js_rem_nonneg: "0 \<le> a \<Longrightarrow> 0 < b \<Longrightarrow> js_rem a b = Some (a mod b)"
  by (cases "a = 0") (simp_all add: js_rem_def)

lemma mod_in_range: "0 < (n::int) \<Longrightarrow> 0 \<le> a mod n \<and> a mod n < n"
  by simp

lemma goNext_ok:
  assumes "index_valid p"
  shows "\<exists>p'. goNext p = Inr p'
       \<and> index p' = (index p + 1) mod int (length (slides p))
       \<and> length (slides p') = length (slides p)
       \<and> intervals p' = intervals p \<and> autoSlideId p' = autoSlideId p"
proof -
  let ?n = "int (length (slides p))"
  from assms have v: "0 \<le> index p" "index p < ?n" by (simp_all add: index_valid_def)
  then have r: "js_rem (index p + 1) ?n = Some ((index p + 1) mod ?n)"
    by (intro js_rem_nonneg) linarith+
  from v have n: "0 < ?n" by linarith
  then have "0 \<le> (index p + 1) mod ?n" "(index p + 1) mod ?n < ?n" by simp_all
  then have "0 \<le> (index p + 1) mod ?n"
     "(index p + 1) mod ?n < int (length (slides (p\<lparr>index := (index p + 1) mod ?n\<rparr>)))"
    by simp_all
  from showSlide_ok [OF this] show ?thesis
    by (auto simp: goNext_def r)
qed

lemma goPrev_ok:
  assumes "index_valid p"
  shows "\<exists>p'. goPrev p = Inr p'
       \<and> index p' = (index p - 1) mod int (length (slides p))
       \<and> length (slides p') = length (slides p)
       \<and> intervals p' = intervals p \<and> autoSlideId p' = autoSlideId p"
proof -
  let ?n = "int (length (slides p))"
  from assms have v: "0 \<le> index p" "index p < ?n" by (simp_all add: index_valid_def)
  then have r: "js_rem (index p - 1 + ?n) ?n = Some ((index p - 1 + ?n) mod ?n)"
    by (intro js_rem_nonneg) linarith+
  have e: "(index p - 1 + ?n) mod ?n = (index p - 1) mod ?n" by simp
  from v have n: "0 < ?n" by linarith
  then have "0 \<le> (index p - 1) mod ?n" "(index p - 1) mod ?n < ?n" by simp_all
  then have "0 \<le> (index p - 1) mod ?n"
     "(index p - 1) mod ?n < int (length (slides (p\<lparr>index := (index p - 1) mod ?n\<rparr>)))"
    by simp_all
  from showSlide_ok [OF this] show ?thesis
    unfolding goPrev_def r e by auto
qed

lemma goNext_times_ok:
  "index_valid p \<Longrightarrow> \<exists>p'. goNext_times k p = Inr p'
       \<and> index p' = (index p + int k) mod int (length (slides p))
       \<and> length (slides p') = length (slides p)"
proof (induction k arbitrary: p)
  case 0
  then show ?case by (simp add: index_valid_def)
next
  case (Suc k)
  from goNext_ok [OF Suc.prems] obtain p1 where
    p1: "goNext p = Inr p1" "index p1 = (index p + 1) mod int (length (slides p))"
      "length (slides p1) = length (slides p)" by blast
  from Suc.prems have "0 < int (length (slides p))" by (auto simp: index_valid_def)
  with p1 have "index_valid p1" by (simp add: index_valid_def)
  from Suc.IH [OF this] obtain p' where
    p': "goNext_times k p1 = Inr p'" "index p' = (index p1 + int k) mod int (length (slides p1))"
      "length (slides p') = length (slides p1)" by blast
  have "(((index p + 1) mod int (length (slides p))) + int k) mod int (length (slides p))
      = (index p + int (Suc k)) mod int (length (slides p))"
    by (simp add: mod_simps ac_simps)
  with p1 p' show ?case by simp
qed

lemma startAutoSlide_fields [simp]:
  "index (startAutoSlide p) = index p" "slides (startAutoSlide p) = slides p"
  by (simp_all add: startAutoSlide_def setInterval_def stopAutoSlide_def clearInterval_def
      split: option.splits)

lemma stopAutoSlide_fields [simp]:
  "index (stopAutoSlide p) = index p" "slides (stopAutoSlide p) = slides p"
  by (simp_all add: stopAutoSlide_def clearInterval_def split: option.splits)

lemma attachListeners_fields [simp]:
  "index (attachListeners p) = index p" "slides (attachListeners p) = slides p"
  "intervals (attachListeners p) = intervals p" "autoSlideId (attachListeners p) = autoSlideId p"
  by (simp_all add: attachListeners_def)

lemma goNext_valid:
  assumes "index_valid p"
  shows "\<exists>p'. goNext p = Inr p' \<and> index_valid p'"
proof -
  from assms have "0 < int (length (slides p))" by (auto simp: index_valid_def)
  from mod_in_range [OF this] goNext_ok [OF assms] show ?thesis
    unfolding index_valid_def by metis
qed

lemma goPrev_valid:
  assumes "index_valid p"
  shows "\<exists>p'. goPrev p = Inr p' \<and> index_valid p'"
proof -
  from assms have "0 < int (length (slides p))" by (auto simp: index_valid_def)
  from mod_in_range [OF this] goPrev_ok [OF assms] show ?thesis
    unfolding index_valid_def by metis
qed

lemma showSlide_valid:
  assumes "index_valid p"
  shows "\<exists>p'. showSlide (index p) p = Inr p' \<and> index_valid p'"
proof -
  from assms have v: "0 \<le> index p" "index p < int (length (slides p))"
    by (simp_all add: index_valid_def)
  from showSlide_ok [OF v] obtain p' where
    "showSlide (index p) p = Inr p'" "index p' = index p"
    "length (slides p') = length (slides p)" by blast
  with v show ?thesis by (simp add: index_valid_def)
qed

lemma start_valid: "index_valid p \<Longrightarrow> index_valid (startAutoSlide p)"
  by (simp add: index_valid_def)

lemma exec_valid:
  assumes "index_valid p"
  shows "\<exists>p'. exec c p = Inr p' \<and> index_valid p'"
proof (cases c)
  case ShowSlide
  with showSlide_valid [OF assms] show ?thesis by simp
next
  case GoNext
  with goNext_valid [OF assms] show ?thesis by simp
next
  case GoPrev
  with goPrev_valid [OF assms] show ?thesis by simp
next
  case StartAutoSlide
  with assms show ?thesis by (simp add: index_valid_def)
next
  case StopAutoSlide
  with assms show ?thesis by (simp add: index_valid_def)
next
  case AttachListeners
  with assms show ?thesis by (simp add: index_valid_def)
next
  case Load
  let ?p1 = "p\<lparr>body_classList := classList_add ''loaded'' (body_classList p)\<rparr>"
  from assms have v: "index_valid ?p1" and ne: "length (slides ?p1) \<noteq> 0"
    by (auto simp: index_valid_def)
  from showSlide_valid [OF v] obtain p2 where
    p2: "showSlide (index ?p1) ?p1 = Inr p2" "index_valid p2" by blast
  then have "index_valid (startAutoSlide (attachListeners p2))"
    by (simp add: index_valid_def)
  with Load p2 ne show ?thesis
    by (simp add: load_handler_def Let_def)
next
  case NextClick
  from goNext_valid [OF assms] obtain p1 where "goNext p = Inr p1" "index_valid p1" by blast
  with NextClick show ?thesis by (simp add: next_click_def start_valid)
next
  case PrevClick
  from goPrev_valid [OF assms] obtain p1 where "goPrev p = Inr p1" "index_valid p1" by blast
  with PrevClick show ?thesis by (simp add: prev_click_def start_valid)
qed

lemma run_valid:
  "index_valid p \<Longrightarrow> \<exists>p'. run cs p = Inr p' \<and> index_valid p'"
proof (induction cs arbitrary: p)
  case Nil
  then show ?case by simp
next
  case (Cons c cs)
  from exec_valid [OF Cons.prems] obtain p1 where
    p1: "exec c p = Inr p1" "index_valid p1" by blast
  from Cons.IH [OF p1(2)] p1(1) show ?case by simp
qed

subsection \<open>Auto-advance timer: auxiliary facts\<close>

lemma init_timer_consistent: "timer_consistent (init ss nb pb g body nav)"
  by (simp add: timer_consistent_def init_def)

lemma stop_clears:
  "timer_consistent p \<Longrightarrow> intervals (stopAutoSlide p) = [] \<and> autoSlideId (stopAutoSlide p) = None"
  by (simp add: timer_consistent_def stopAutoSlide_def clearInterval_def split: option.splits)

lemma start_single:
  assumes "timer_consistent p"
  shows "intervals (startAutoSlide p) = [(next_timer p, AUTO_SLIDE_INTERVAL_MS)]
       \<and> autoSlideId (startAutoSlide p) = Some (next_timer p)"
proof -
  have "next_timer (stopAutoSlide p) = next_timer p"
    by (simp add: stopAutoSlide_def clearInterval_def split: option.splits)
  with stop_clears [OF assms] show ?thesis
    by (simp add: startAutoSlide_def setInterval_def)
qed

lemma stop_consistent: "timer_consistent p \<Longrightarrow> timer_consistent (stopAutoSlide p)"
  using stop_clears [of p] by (simp add: timer_consistent_def)

lemma start_consistent: "timer_consistent p \<Longrightarrow> timer_consistent (startAutoSlide p)"
  using start_single [of p] by (simp add: timer_consistent_def)

lemma auto_calls_consistent:
  "timer_consistent p \<Longrightarrow> timer_consistent (auto_calls cs p)"
  by (induction cs p rule: auto_calls.induct) (simp_all add: stop_consistent start_consistent)

lemma consistent_at_most_one: "timer_consistent p \<Longrightarrow> length (intervals p) \<le> 1"
  by (simp add: timer_consistent_def split: option.splits)

lemma timer_consistent_cong:
  "intervals q = intervals p \<Longrightarrow> autoSlideId q = autoSlideId p \<Longrightarrow>
   timer_consistent p \<Longrightarrow> timer_consistent q"
  by (simp add: timer_consistent_def)

lemma showSlide_timers:
  "showSlide i p = Inr p' \<Longrightarrow> intervals p' = intervals p \<and> autoSlideId p' = autoSlideId p"
  by (auto simp: showSlide_def Let_def split: if_splits)

lemma goNext_timers:
  "goNext p = Inr p' \<Longrightarrow> intervals p' = intervals p \<and> autoSlideId p' = autoSlideId p"
  by (auto simp: goNext_def split: option.splits dest: showSlide_timers)

lemma goPrev_timers:
  "goPrev p = Inr p' \<Longrightarrow> intervals p' = intervals p \<and> autoSlideId p' = autoSlideId p"
  by (auto simp: goPrev_def split: option.splits dest: showSlide_timers)

text \<open>
  Every function of the slide controller keeps the timer table consistent, so every
  state the script reaches from its start has at most one timer.
\<close>

lemma exec_timer_consistent:
  assumes "timer_consistent p" and "exec c p = Inr p'"
  shows "timer_consistent p'"
proof (cases c)
  case ShowSlide
  with assms showSlide_timers [of "index p" p p'] show ?thesis
    by (auto intro: timer_consistent_cong)
next
  case GoNext
  with assms goNext_timers [of p p'] show ?thesis
    by (auto intro: timer_consistent_cong)
next
  case GoPrev
  with assms goPrev_timers [of p p'] show ?thesis
    by (auto intro: timer_consistent_cong)
next
  case StartAutoSlide
  with assms show ?thesis by (auto simp: start_consistent)
next
  case StopAutoSlide
  with assms show ?thesis by (auto simp: stop_consistent)
next
  case AttachListeners
  with assms show ?thesis by (auto simp: timer_consistent_def)
next
  case Load
  let ?p1 = "p\<lparr>body_classList := classList_add ''loaded'' (body_classList p)\<rparr>"
  have c1: "timer_consistent ?p1"
    using assms(1) by (simp add: timer_consistent_def)
  show ?thesis
  proof (cases "length (slides p) = 0")
    case True
    with Load assms(2) c1 show ?thesis
      by (simp add: load_handler_def Let_def)
  next
    case False
    with Load assms(2) obtain p2 where
      p2: "showSlide (index ?p1) ?p1 = Inr p2" "p' = startAutoSlide (attachListeners p2)"
      by (auto simp: load_handler_def Let_def split: sum.splits)
    from showSlide_timers [OF p2(1)] c1 have "timer_consistent (attachListeners p2)"
      by (simp add: timer_consistent_def)
    with p2(2) show ?thesis by (simp add: start_consistent)
  qed
next
  case NextClick
  with assms(2) obtain p1 where p1: "goNext p = Inr p1" "p' = startAutoSlide p1"
    by (auto simp: next_click_def split: sum.splits)
  from goNext_timers [OF p1(1)] assms(1) have "timer_consistent p1"
    by (simp add: timer_consistent_def)
  with p1(2) show ?thesis by (simp add: start_consistent)
next
  case PrevClick
  with assms(2) obtain p1 where p1: "goPrev p = Inr p1" "p' = startAutoSlide p1"
    by (auto simp: prev_click_def split: sum.splits)
  from goPrev_timers [OF p1(1)] assms(1) have "timer_consistent p1"
    by (simp add: timer_consistent_def)
  with p1(2) show ?thesis by (simp add: start_consistent)
qed

lemma run_timer_consistent:
  "timer_consistent p \<Longrightarrow> run cs p = Inr p' \<Longrightarrow> timer_consistent p'"
proof (induction cs arbitrary: p)
  case Nil
  then show ?case by simp
next
  case (Cons c cs)
  from Cons.prems(2) obtain p1 where p1: "exec c p = Inr p1" "run cs p1 = Inr p'"
    by (auto split: sum.splits)
  from exec_timer_consistent [OF Cons.prems(1) p1(1)] have "timer_consistent p1" .
  from Cons.IH [OF this p1(2)] show ?case .
qed

subsection \<open>Page chrome\<close>

text \<open>
  C1: the claim is that on a page without a navbar element the scroll listener does
  nothing and raises nothing. The code does not do that: \<^verbatim>\<open>nav\<close> is \<^verbatim>\<open>null\<close> there and
  both branches read \<^verbatim>\<open>nav.classList\<close>, so every scroll event, at any offset, raises a
  \<^verbatim>\<open>TypeError\<close>.
\<close>

theorem scroll_without_navbar_raises:
  "scroll_handler y (p\<lparr>navbar := None\<rparr>) = Inl TypeError"
  by (simp add: scroll_handler_def)

text \<open>
  C2: on a page with no slide panel the load listener succeeds and adds "loaded" to the
  body's class list; nothing else of the page changes: no timer is created, no listener
  is attached, no slide is positioned or animated, the cursor stays.
\<close>

theorem load_without_slides:
  assumes "slides p = []"
  shows "\<exists>p'. load_handler p = Inr p'
     \<and> classList_contains ''loaded'' (body_classList p')
     \<and> body_classList p' = classList_add ''loaded'' (body_classList p)
     \<and> p' = p\<lparr>body_classList := body_classList p'\<rparr>
     \<and> intervals p' = intervals p \<and> autoSlideId p' = autoSlideId p
     \<and> listeners p' = listeners p
     \<and> slides p' = slides p \<and> index p' = index p \<and> gsap_calls p' = gsap_calls p"
  using assms by (simp add: load_handler_def cl_defs)

theorem load_without_slides_witness:
  "slides example_blank_page = []
   \<and> load_handler example_blank_page = Inr (example_blank_page\<lparr>body_classList := [''loaded'']\<rparr>)
   \<and> intervals (example_blank_page\<lparr>body_classList := [''loaded'']\<rparr>) = []
   \<and> listeners (example_blank_page\<lparr>body_classList := [''loaded'']\<rparr>) = []"
proof -
  have h: "slides example_blank_page = []"
    by (simp add: example_blank_page_def init_def)
  from load_without_slides [OF h] h show ?thesis
    by (auto simp: example_blank_page_def init_def cl_defs)
qed

text \<open>
  C6: with a navbar on the page, every scroll event succeeds and leaves the navbar's
  "scrolled" state equal to (offset > 60), whatever the navbar's class list was before;
  nothing but the navbar's class list changes. At offset 60 the state is false, at 61
  it is true.
\<close>

theorem scroll_state_is_offset_above_60:
  "(\<exists>p'. scroll_handler y (p\<lparr>navbar := Some cl\<rparr>) = Inr p'
      \<and> navbar_scrolled p' = (y > 60)
      \<and> p'\<lparr>navbar := Some cl\<rparr> = p\<lparr>navbar := Some cl\<rparr>)
   \<and> (\<exists>p'. scroll_handler 60 (p\<lparr>navbar := Some cl\<rparr>) = Inr p' \<and> navbar_scrolled p' = False)
   \<and> (\<exists>p'. scroll_handler 61 (p\<lparr>navbar := Some cl\<rparr>) = Inr p' \<and> navbar_scrolled p' = True)"
  by (simp add: scroll_handler_def navbar_scrolled_def cl_defs Let_def)

subsection \<open>Slide controller\<close>

text \<open>
  C3: from a valid cursor (which needs at least one slide), \<^verbatim>\<open>goNext()\<close> succeeds and
  moves the cursor one forward, to 0 after the last slide; as many calls in succession
  as there are slides all succeed and bring the cursor back to where it started.
\<close>

theorem goNext_cycle:
  assumes "index_valid p"
  shows "(\<exists>p'. goNext p = Inr p'
            \<and> index p' = (if index p + 1 = int (length (slides p)) then 0 else index p + 1))
       \<and> (\<exists>p'. goNext_times (length (slides p)) p = Inr p' \<and> index p' = index p)"
proof -
  from assms have v: "0 \<le> index p" "index p < int (length (slides p))"
    by (simp_all add: index_valid_def)
  have a: "(index p + 1) mod int (length (slides p))
      = (if index p + 1 = int (length (slides p)) then 0 else index p + 1)"
    using v by simp
  have b: "(index p + int (length (slides p))) mod int (length (slides p)) = index p"
    using v by simp
  from goNext_ok [OF assms] goNext_times_ok [OF assms, of "length (slides p)"] a b
  show ?thesis by metis
qed

theorem goNext_cycle_witness:
  "index_valid example_page
   \<and> (\<exists>p'. goNext example_page = Inr p' \<and> index p' = 1)
   \<and> (\<exists>p'. goNext_times (length (slides example_page)) example_page = Inr p' \<and> index p' = 0)"
proof -
  have h: "index_valid example_page"
    by (simp add: index_valid_def example_page_def init_def)
  have i: "index example_page = 0" "int (length (slides example_page)) = 3"
    by (simp_all add: example_page_def init_def)
  from goNext_cycle [OF h] h show ?thesis
    unfolding i by simp
qed

text \<open>
  C4: in every state where the window's timers are the one \<^verbatim>\<open>autoSlideId\<close> names (or
  none when it is \<^verbatim>\<open>null\<close>), whether a timer runs or not: \<^verbatim>\<open>stopAutoSlide()\<close> leaves no
  timer; \<^verbatim>\<open>startAutoSlide()\<close> leaves exactly the one new timer, the prior one cancelled;
  two \<^verbatim>\<open>startAutoSlide()\<close> calls in succession leave exactly one; and after any sequence
  of \<^verbatim>\<open>startAutoSlide()\<close>/\<^verbatim>\<open>stopAutoSlide()\<close> calls at most one timer is active.
\<close>

theorem at_most_one_timer:
  assumes "timer_consistent p"
  shows "length (intervals (auto_calls cs p)) \<le> 1
       \<and> intervals (stopAutoSlide p) = []
       \<and> intervals (startAutoSlide p) = [(next_timer p, AUTO_SLIDE_INTERVAL_MS)]
       \<and> length (intervals (startAutoSlide (startAutoSlide p))) = 1"
proof -
  have a: "length (intervals (auto_calls cs p)) \<le> 1"
    by (rule consistent_at_most_one [OF auto_calls_consistent [OF assms]])
  have b: "intervals (stopAutoSlide p) = []"
    using stop_clears [OF assms] by simp
  have c: "intervals (startAutoSlide p) = [(next_timer p, AUTO_SLIDE_INTERVAL_MS)]"
    using start_single [OF assms] by simp
  have d: "length (intervals (startAutoSlide (startAutoSlide p))) = 1"
    using start_single [OF start_consistent [OF assms]] by simp
  from a b c d show ?thesis by simp
qed

theorem at_most_one_timer_witness:
  "timer_consistent (startAutoSlide example_page)
   \<and> length (intervals (auto_calls [CallStart, CallStart, CallStop, CallStart]
        (startAutoSlide example_page))) \<le> 1
   \<and> intervals (startAutoSlide (startAutoSlide example_page)) = [(2, 7000)]"
proof -
  have h: "timer_consistent (startAutoSlide example_page)"
    by (simp add: timer_consistent_def startAutoSlide_def stopAutoSlide_def setInterval_def
        example_page_def init_def)
  have n: "next_timer (startAutoSlide example_page) = 2"
    by (simp add: startAutoSlide_def stopAutoSlide_def setInterval_def
        example_page_def init_def)
  from at_most_one_timer [OF h, of "[CallStart, CallStart, CallStop, CallStart]"] h n
  show ?thesis
    by (simp add: AUTO_SLIDE_INTERVAL_MS_def)
qed

text \<open>
  C7: with at least one slide the cursor is a valid index when the script starts
  (\<open>index = 0\<close>); and from a valid cursor \<^verbatim>\<open>goNext()\<close>, \<^verbatim>\<open>goPrev()\<close>, every other function
  of the controller, and every sequence of them, succeed and leave the cursor valid.
\<close>

theorem index_invariant:
  "(ss \<noteq> [] \<longrightarrow> index_valid (init ss nb pb g body nav))
   \<and> (index_valid p \<longrightarrow>
        (\<exists>p'. goNext p = Inr p' \<and> index_valid p')
      \<and> (\<exists>p'. goPrev p = Inr p' \<and> index_valid p')
      \<and> (\<exists>p'. exec c p = Inr p' \<and> index_valid p')
      \<and> (\<exists>p'. run cs p = Inr p' \<and> index_valid p'))"
proof -
  have "ss \<noteq> [] \<longrightarrow> index_valid (init ss nb pb g body nav)"
    by (simp add: index_valid_def init_def)
  then show ?thesis
    using goNext_valid [of p] goPrev_valid [of p] exec_valid [of p c] run_valid [of p cs]
    by blast
qed

theorem index_invariant_witness:
  "index_valid example_page
   \<and> (\<exists>p'. goNext example_page = Inr p' \<and> index_valid p')
   \<and> (\<exists>p'. goPrev example_page = Inr p' \<and> index_valid p')
   \<and> (\<exists>p'. exec Load example_page = Inr p' \<and> index_valid p')
   \<and> (\<exists>p'. run [Load, GoPrev, NextClick, GoNext, PrevClick] example_page = Inr p' \<and> index_valid p')"
proof -
  have ne: "[example_slide, example_slide, example_slide] \<noteq> []" by simp
  from index_invariant [of "[example_slide, example_slide, example_slide]" True True True "[]"
      "Some []" example_page Load "[Load, GoPrev, NextClick, GoNext, PrevClick]"] ne
  show ?thesis
    unfolding example_page_def by blast
qed

text \<open>
  C8: with at least one slide and the cursor at 0 (as it is when the script starts),
  \<^verbatim>\<open>goPrev()\<close> succeeds and puts the cursor on the last index, \<open>N - 1\<close>.
\<close>

theorem goPrev_wraps_backward:
  assumes "slides p \<noteq> []" and "index p = 0"
  shows "\<exists>p'. goPrev p = Inr p' \<and> index p' = int (length (slides p)) - 1"
proof -
  from assms have v: "index_valid p" by (simp add: index_valid_def)
  have "(index p - 1) mod int (length (slides p)) = int (length (slides p)) - 1"
    using assms by (simp add: zmod_minus1)
  with goPrev_ok [OF v] show ?thesis by metis
qed

theorem goPrev_wraps_backward_witness:
  "slides example_page \<noteq> [] \<and> index example_page = 0
   \<and> (\<exists>p'. goPrev example_page = Inr p' \<and> index p' = 2)"
proof -
  have h: "slides example_page \<noteq> []" "index example_page = 0"
    by (simp_all add: example_page_def init_def)
  have l: "int (length (slides example_page)) = 3"
    by (simp add: example_page_def init_def)
  from goPrev_wraps_backward [OF h] h show ?thesis
    unfolding l by simp
qed

text \<open>
  C9: \<^verbatim>\<open>stopAutoSlide()\<close> never raises; with no timer active (\<^verbatim>\<open>autoSlideId\<close> is \<^verbatim>\<open>null\<close>)
  it leaves the whole page state as it was, and calling it twice is the same as calling
  it once.
\<close>

theorem stopAutoSlide_noop:
  "(autoSlideId p = None \<longrightarrow> stopAutoSlide p = p)
   \<and> stopAutoSlide (stopAutoSlide p) = stopAutoSlide p"
  by (simp add: stopAutoSlide_def clearInterval_def split: option.split)

theorem stopAutoSlide_noop_witness:
  "autoSlideId example_blank_page = None
   \<and> stopAutoSlide example_blank_page = example_blank_page
   \<and> stopAutoSlide (stopAutoSlide (startAutoSlide example_page))
       = stopAutoSlide (startAutoSlide example_page)"
proof -
  have h: "autoSlideId example_blank_page = None"
    by (simp add: example_blank_page_def init_def)
  from stopAutoSlide_noop [of example_blank_page] h
    stopAutoSlide_noop [of "startAutoSlide example_page"]
  show ?thesis by simp
qed

subsection \<open>Gallery lightbox\<close>

text \<open>
  C5: on a gallery page with its viewer and viewer image, a click on the item whose
  source is "a.jpg" and then on the item whose source is "b.jpg" leaves the overlay
  visible and showing "b.jpg", the viewer's class list being the old one with "show"
  added; a click on the close control then removes "show" from that class list and
  changes nothing else: the overlay is hidden, its other classes stay, and the
  displayed reference is still "b.jpg".
\<close>

theorem lightbox_a_then_b_then_close:
  assumes "viewer g = Some cl" and "viewerImg g = Some s"
    and "i < length (items g)" and "items g ! i = ''a.jpg''"
    and "j < length (items g)" and "items g ! j = ''b.jpg''"
  shows "\<exists>g1 g2 g3 cl2. click_item i g = Inr g1 \<and> click_item j g1 = Inr g2
       \<and> g2 = g\<lparr>viewer := Some (classList_add ''show'' cl), viewerImg := Some ''b.jpg''\<rparr>
       \<and> visible g2 \<and> viewerImg g2 = Some ''b.jpg'' \<and> viewer g2 = Some cl2
       \<and> close_click g2 = Inr g3
       \<and> \<not> visible g3 \<and> viewerImg g3 = Some ''b.jpg''
       \<and> viewer g3 = Some (classList_remove ''show'' cl2)
       \<and> g3 = g2\<lparr>viewer := Some (classList_remove ''show'' cl2)\<rparr>"
  using assms
  by (simp add: click_item_def item_click_def close_click_def visible_def cl_defs Let_def)

theorem lightbox_a_then_b_then_close_witness:
  "\<exists>g1 g2 g3. click_item 0 example_gallery = Inr g1 \<and> click_item 1 g1 = Inr g2
       \<and> visible g2 \<and> viewerImg g2 = Some ''b.jpg''
       \<and> viewer g2 = Some [''viewer'', ''show'']
       \<and> close_click g2 = Inr g3
       \<and> \<not> visible g3 \<and> viewerImg g3 = Some ''b.jpg''
       \<and> viewer g3 = Some [''viewer'']
       \<and> g3 = g2\<lparr>viewer := Some [''viewer'']\<rparr>"
proof -
  have h: "viewer example_gallery = Some [''viewer'']" "viewerImg example_gallery = Some []"
    "0 < length (items example_gallery)" "items example_gallery ! 0 = ''a.jpg''"
    "1 < length (items example_gallery)" "items example_gallery ! 1 = ''b.jpg''"
    by (simp_all add: example_gallery_def)
  from lightbox_a_then_b_then_close [OF h] obtain g1 g2 g3 cl2 where
    r: "click_item 0 example_gallery = Inr g1" "click_item 1 g1 = Inr g2"
      "g2 = example_gallery\<lparr>viewer := Some (classList_add ''show'' [''viewer'']),
         viewerImg := Some ''b.jpg''\<rparr>"
      "visible g2" "viewerImg g2 = Some ''b.jpg''" "viewer g2 = Some cl2"
      "close_click g2 = Inr g3" "\<not> visible g3" "viewerImg g3 = Some ''b.jpg''"
      "viewer g3 = Some (classList_remove ''show'' cl2)"
      "g3 = g2\<lparr>viewer := Some (classList_remove ''show'' cl2)\<rparr>"
    by blast
  from r(3) r(6) have c: "cl2 = [''viewer'', ''show'']"
    by (simp add: cl_defs)
  have d: "classList_remove ''show'' [''viewer'', ''show''] = [''viewer'']"
    by (simp add: cl_defs)
  from r c d show ?thesis by auto
qed

text \<open>
  C10: on a gallery page with its viewer and viewer image, a click on any item succeeds,
  leaves the overlay visible and showing that item's source; when the overlay was
  visible already its class list is unchanged; and a second click on the same item
  changes nothing: the state after it is the state after the first.
\<close>

theorem reopen_is_idempotent:
  assumes "viewer g = Some cl" and "viewerImg g = Some s" and "k < length (items g)"
  shows "\<exists>g1. click_item k g = Inr g1
       \<and> visible g1 \<and> viewerImg g1 = Some (items g ! k)
       \<and> (visible g \<longrightarrow> viewer g1 = viewer g)
       \<and> click_item k g1 = Inr g1"
  using assms
  by (simp add: click_item_def item_click_def visible_def cl_defs Let_def)

theorem reopen_is_idempotent_witness:
  "visible (example_gallery\<lparr>viewer := Some [''viewer'', ''show'']\<rparr>)
   \<and> (\<exists>g1. click_item 1 (example_gallery\<lparr>viewer := Some [''viewer'', ''show'']\<rparr>) = Inr g1
       \<and> visible g1 \<and> viewerImg g1 = Some ''b.jpg''
       \<and> viewer g1 = Some [''viewer'', ''show'']
       \<and> click_item 1 g1 = Inr g1)"
proof -
  let ?g = "example_gallery\<lparr>viewer := Some [''viewer'', ''show'']\<rparr>"
  have h: "viewer ?g = Some [''viewer'', ''show'']" "viewerImg ?g = Some []"
    "1 < length (items ?g)"
    by (simp_all add: example_gallery_def)
  have v: "visible ?g" "items ?g ! 1 = ''b.jpg''"
    by (simp_all add: visible_def cl_defs example_gallery_def)
  from reopen_is_idempotent [OF h] v h(1) show ?thesis
    by auto
qed

end
